theory Spec2Isabelle
  imports Complex_Main "HOL-Library.Sublist"
begin

section \<open>The question schema (src/lib/schemas.ts)\<close>

text \<open>
  \<^verbatim>\<open>Question = z.infer<typeof questionSchema>\<close>: the prompt, the options, the label of the
  correct option and the explanation. Labels are JavaScript strings; the component compares
  them with \<^verbatim>\<open>===\<close>.
\<close>

record Question =
  question :: string
  options :: "string list"
  answer :: string
  explanation :: string

section \<open>The quiz component (src/unnamed/part_000)\<close>

subsection \<open>Component state\<close>

text \<open>
  The value shown by the progress bar is the JavaScript number
  \<^verbatim>\<open>(currentQuestionIndex / questions.length) * 100\<close>; it is kept symbolically as the
  index and the length it was computed from, so that no floating point enters the model.
\<close>

datatype progress_value = ProgressZero | ProgressOf nat nat

text \<open>
  One field per \<^verbatim>\<open>useState\<close> hook of \<^verbatim>\<open>Quiz\<close>. The array \<^verbatim>\<open>answers\<close> is a JavaScript
  array of strings that may have holes: \<open>None\<close> is a slot that was never written.
\<close>

record quiz =
  questions :: "Question list"
  currentQuestionIndex :: nat
  answers :: "string option list"
  score :: nat
  hasAnswered :: bool
  isComplete :: bool
  progress :: progress_value
  feedbackMessage :: string
  isLoadingMore :: bool
  showExplanation :: bool

definition initial :: "Question list \<Rightarrow> quiz" where
  "initial initialQuestions =
     \<lparr> questions = initialQuestions, currentQuestionIndex = 0, answers = [], score = 0,
       hasAnswered = False, isComplete = False, progress = ProgressZero,
       feedbackMessage = [], isLoadingMore = False, showExplanation = False \<rparr>"

text \<open>
  What the code can raise: the \<^verbatim>\<open>TypeError\<close> of reading a property of \<^verbatim>\<open>undefined\<close>, and
  \<^verbatim>\<open>new Error(message)\<close>.
\<close>

datatype error = TypeError | Error string

subsection \<open>JavaScript array access\<close>

text \<open>
  \<^verbatim>\<open>xs[i] = v\<close> on a JavaScript array: inside the array the slot is overwritten, beyond its
  end the array is extended with holes up to \<open>i\<close>.
\<close>

definition array_set :: "'a option list \<Rightarrow> nat \<Rightarrow> 'a \<Rightarrow> 'a option list" where
  "array_set xs i v =
     (if i < length xs then xs[i := Some v]
      else xs @ replicate (i - length xs) None @ [Some v])"

text \<open>\<^verbatim>\<open>xs[i]\<close> read: \<open>None\<close> stands for \<^verbatim>\<open>undefined\<close> (a hole or an index out of range).\<close>

definition array_get :: "'a option list \<Rightarrow> nat \<Rightarrow> 'a option" where
  "array_get xs i = (if i < length xs then xs ! i else None)"

text \<open>\<^verbatim>\<open>const currentQuestion = questions[currentQuestionIndex]\<close> (line 172).\<close>

definition currentQuestion :: "quiz \<Rightarrow> Question option" where
  "currentQuestion s =
     (if currentQuestionIndex s < length (questions s)
      then Some (questions s ! currentQuestionIndex s) else None)"

subsection \<open>Event handlers\<close>

text \<open>
  The two feedback messages. The first ends, after the blank, with the nine bytes that the
  literal of line 141 has in the source file.
\<close>

definition correctMessage :: string where
  "correctMessage =
     ''Correct! '' @ [CHR 0xC3, CHR 0xB0, CHR 0xC5, CHR 0xB8, CHR 0xC5, CHR 0xBD,
                      CHR 0xE2, CHR 0x80, CHR 0xB0]"

definition incorrectMessage :: "string \<Rightarrow> string" where
  "incorrectMessage a = ''Incorrect. The correct answer was '' @ a"

text \<open>
  \<^verbatim>\<open>handleSelectAnswer\<close> (lines 131-148). Reading \<^verbatim>\<open>questions[currentQuestionIndex].answer\<close>
  when the index is not a position of the list raises a \<^verbatim>\<open>TypeError\<close>; the handler then
  has no result state (the two updates it queued before are not kept: a component in
  that state has already failed to render, see \<open>render\<close> below).
\<close>

definition handleSelectAnswer :: "string \<Rightarrow> quiz \<Rightarrow> error + quiz" where
  "handleSelectAnswer a s =
     (if \<not> hasAnswered s then
        (case currentQuestion s of
           None \<Rightarrow> Inl TypeError
         | Some q \<Rightarrow>
             let s1 = s\<lparr> answers := array_set (answers s) (currentQuestionIndex s) a,
                        hasAnswered := True \<rparr>
             in if a = answer q
                then Inr (s1\<lparr> score := score s + 1, feedbackMessage := correctMessage \<rparr>)
                else Inr (s1\<lparr> feedbackMessage := incorrectMessage (answer q) \<rparr>))
      else Inr s)"

text \<open>\<^verbatim>\<open>handleNextQuestion\<close> (lines 150-155).\<close>

definition handleNextQuestion :: "quiz \<Rightarrow> quiz" where
  "handleNextQuestion s =
     s\<lparr> currentQuestionIndex := currentQuestionIndex s + 1, hasAnswered := False,
        feedbackMessage := [], showExplanation := False \<rparr>"

text \<open>\<^verbatim>\<open>handleShowResults\<close> (lines 157-159).\<close>

definition handleShowResults :: "quiz \<Rightarrow> quiz" where
  "handleShowResults s = s\<lparr> isComplete := True \<rparr>"

text \<open>
  \<^verbatim>\<open>handleReset\<close> (lines 161-170); \<open>initialQuestions\<close> is the \<^verbatim>\<open>questions\<close> prop of the
  component.
\<close>

definition handleReset :: "Question list \<Rightarrow> quiz \<Rightarrow> quiz" where
  "handleReset initialQuestions s =
     s\<lparr> answers := [], currentQuestionIndex := 0, score := 0, hasAnswered := False,
        isComplete := False, progress := ProgressZero, questions := initialQuestions,
        showExplanation := False \<rparr>"

text \<open>
  \<^verbatim>\<open>handleNextQuestion\<close> of the component in src/components/quiz.tsx (lines 126-133), on the
  fields of this state: it advances only below the last question and ends the quiz there.
\<close>

definition handleNextQuestion_bounded :: "quiz \<Rightarrow> quiz" where
  "handleNextQuestion_bounded s =
     (if int (currentQuestionIndex s) < int (length (questions s)) - 1
      then s\<lparr> currentQuestionIndex := currentQuestionIndex s + 1, hasAnswered := False \<rparr>
      else s\<lparr> isComplete := True \<rparr>)"

subsection \<open>Preloading more questions\<close>

text \<open>
  The guard of \<^verbatim>\<open>loadMoreIfNeeded\<close> (lines 106-110). \<^verbatim>\<open>questions.length - 2\<close> is negative
  for fewer than two questions, so the comparison is made over the integers.
\<close>

definition needsMore :: "quiz \<Rightarrow> bool" where
  "needsMore s \<longleftrightarrow>
     int (currentQuestionIndex s) \<ge> int (length (questions s)) - 2
     \<and> \<not> isLoadingMore s \<and> \<not> isComplete s"

text \<open>
  \<^verbatim>\<open>loadMoreIfNeeded\<close> up to its \<^verbatim>\<open>await\<close> (lines 106-113): \<open>Some\<close> the state in which the
  request has been sent, \<open>None\<close> when the guard fails and nothing is requested.
\<close>

definition loadMoreIfNeeded_start :: "quiz \<Rightarrow> quiz option" where
  "loadMoreIfNeeded_start s =
     (if needsMore s then Some (s\<lparr> isLoadingMore := True \<rparr>) else None)"

text \<open>
  \<^verbatim>\<open>loadMoreIfNeeded\<close> from its \<^verbatim>\<open>await\<close> on (lines 113-118), run in the state the component
  has when the promise of \<^verbatim>\<open>onNeedMoreQuestions\<close> settles: \<open>Inr\<close> the new questions, or
  \<open>Inl\<close> the rejection. The second component is what is written to \<^verbatim>\<open>console.error\<close>.
\<close>

definition loadMoreIfNeeded_resume :: "string + Question list \<Rightarrow> quiz \<Rightarrow> quiz \<times> string list" where
  "loadMoreIfNeeded_resume r s =
     (case r of
        Inr newQuestions \<Rightarrow>
          (s\<lparr> questions := questions s @ newQuestions, isLoadingMore := False \<rparr>, [])
      | Inl err \<Rightarrow>
          (s\<lparr> isLoadingMore := False \<rparr>, [''Failed to load more questions: '' @ err]))"

text \<open>
  The dependency list of the effect (line 122): the effect runs again after every render
  in which one of these four values differs from the previous render.
\<close>

definition loadMore_deps :: "quiz \<Rightarrow> nat \<times> nat \<times> bool \<times> bool" where
  "loadMore_deps s =
     (currentQuestionIndex s, length (questions s), isLoadingMore s, isComplete s)"

subsection \<open>Rendering\<close>

text \<open>\<^verbatim>\<open>feedbackMessage.includes('Correct')\<close>.\<close>

fun includes_str :: "string \<Rightarrow> string \<Rightarrow> bool" where
  "includes_str [] sub = (sub = [])"
| "includes_str (c # cs) sub = (prefix sub (c # cs) \<or> includes_str cs sub)"

text \<open>
  What the component renders (lines 193-308), as far as the state decides it: the question
  screen with the props of \<^verbatim>\<open>QuestionCard\<close> and the buttons shown, or the results screen with
  the props of \<^verbatim>\<open>QuizScore\<close> and \<^verbatim>\<open>QuizReview\<close>.
\<close>

record question_screen =
  card_question :: Question
  selectedAnswer :: "string option"
  showCorrectAnswer :: bool
  feedback_shown :: "string option"
  explain_button :: bool
  explanation_shown :: bool
  next_button :: bool

record results_screen =
  correctAnswers :: nat
  totalQuestions :: nat
  review_questions :: "Question list"
  userAnswers :: "string option list"

datatype screen = QuestionScreen question_screen | ResultsScreen results_screen

text \<open>
  \<^verbatim>\<open>QuestionCard\<close> reads \<^verbatim>\<open>question.question\<close> (line 36); with \<^verbatim>\<open>currentQuestion\<close> undefined the
  render raises a \<^verbatim>\<open>TypeError\<close> and the component is gone.
\<close>

definition render :: "quiz \<Rightarrow> error + screen" where
  "render s =
     (if \<not> isComplete s then
        (case currentQuestion s of
           None \<Rightarrow> Inl TypeError
         | Some q \<Rightarrow> Inr (QuestionScreen
             \<lparr> card_question = q,
               selectedAnswer = array_get (answers s) (currentQuestionIndex s),
               showCorrectAnswer = hasAnswered s,
               feedback_shown = (if hasAnswered s then Some (feedbackMessage s) else None),
               explain_button = (hasAnswered s \<and> \<not> includes_str (feedbackMessage s) ''Correct''
                                 \<and> \<not> showExplanation s),
               explanation_shown = (hasAnswered s \<and> showExplanation s),
               next_button = hasAnswered s \<rparr>))
      else Inr (ResultsScreen
             \<lparr> correctAnswers = score s,
               totalQuestions = length (answers s),
               review_questions = take (length (answers s)) (questions s),
               userAnswers = answers s \<rparr>))"

subsection \<open>The session as a transition system\<close>

text \<open>
  What can happen to a mounted component: the clicks the rendered screen offers, the
  effect that preloads questions, the settling of a pending \<^verbatim>\<open>onNeedMoreQuestions\<close> promise,
  and the timer that refreshes the progress bar.
\<close>

datatype event =
    SelectAnswer string
  | NextQuestion
  | ShowResults
  | Explain
  | Reset
  | LoadMore
  | FetchSettled "string + Question list"
  | ProgressTimer

text \<open>
  A session is the component state together with the number of calls of
  \<^verbatim>\<open>loadMoreIfNeeded\<close> that are suspended at their \<^verbatim>\<open>await\<close>.
\<close>

record session =
  ui :: quiz
  inFlight :: nat

text \<open>
  One step. A click is possible only on a button that the current render shows, with the
  guard of its \<^verbatim>\<open>onClick\<close>; nothing happens to a component whose render has raised.
  The label of a selected answer is any string (the card labels its option buttons A to D
  by position). The effect is a step of its own, possible whenever its guard holds.
  \<^verbatim>\<open>clearPDF\<close> hands over to the parent and is not an event of the session.
  \<open>initialQuestions\<close> is the \<^verbatim>\<open>questions\<close> prop.
\<close>

definition step :: "Question list \<Rightarrow> event \<Rightarrow> session \<Rightarrow> session option" where
  "step initialQuestions e c =
     (let s = ui c in
      case render s of
        Inl _ \<Rightarrow> None
      | Inr (QuestionScreen v) \<Rightarrow>
          (case e of
             SelectAnswer a \<Rightarrow>
               (if \<not> showCorrectAnswer v then
                  (case handleSelectAnswer a s of
                     Inl _ \<Rightarrow> None
                   | Inr s' \<Rightarrow> Some (c\<lparr> ui := s' \<rparr>))
                else None)
           | NextQuestion \<Rightarrow>
               (if next_button v then Some (c\<lparr> ui := handleNextQuestion s \<rparr>) else None)
           | ShowResults \<Rightarrow> Some (c\<lparr> ui := handleShowResults s \<rparr>)
           | Explain \<Rightarrow>
               (if explain_button v then Some (c\<lparr> ui := s\<lparr> showExplanation := True \<rparr> \<rparr>)
                else None)
           | Reset \<Rightarrow> None
           | LoadMore \<Rightarrow>
               (case loadMoreIfNeeded_start s of
                  None \<Rightarrow> None
                | Some s' \<Rightarrow> Some \<lparr> ui = s', inFlight = inFlight c + 1 \<rparr>)
           | FetchSettled r \<Rightarrow>
               (if 0 < inFlight c
                then Some \<lparr> ui = fst (loadMoreIfNeeded_resume r s), inFlight = inFlight c - 1 \<rparr>
                else None)
           | ProgressTimer \<Rightarrow>
               Some (c\<lparr> ui := s\<lparr> progress :=
                  ProgressOf (currentQuestionIndex s) (length (questions s)) \<rparr> \<rparr>))
      | Inr (ResultsScreen v) \<Rightarrow>
          (case e of
             Reset \<Rightarrow> Some (c\<lparr> ui := handleReset initialQuestions s \<rparr>)
           | LoadMore \<Rightarrow>
               (case loadMoreIfNeeded_start s of
                  None \<Rightarrow> None
                | Some s' \<Rightarrow> Some \<lparr> ui = s', inFlight = inFlight c + 1 \<rparr>)
           | FetchSettled r \<Rightarrow>
               (if 0 < inFlight c
                then Some \<lparr> ui = fst (loadMoreIfNeeded_resume r s), inFlight = inFlight c - 1 \<rparr>
                else None)
           | ProgressTimer \<Rightarrow>
               Some (c\<lparr> ui := s\<lparr> progress :=
                  ProgressOf (currentQuestionIndex s) (length (questions s)) \<rparr> \<rparr>)
           | _ \<Rightarrow> None))"

text \<open>Running a list of events from a session; \<open>None\<close> when one of them is not possible.\<close>

fun run :: "Question list \<Rightarrow> event list \<Rightarrow> session \<Rightarrow> session option" where
  "run initialQuestions [] c = Some c"
| "run initialQuestions (e # es) c =
     (case step initialQuestions e c of
        None \<Rightarrow> None
      | Some c' \<Rightarrow> run initialQuestions es c')"

text \<open>The session of a component that has just been mounted: nothing is pending.\<close>

definition mounted :: "Question list \<Rightarrow> session" where
  "mounted initialQuestions = \<lparr> ui = initial initialQuestions, inFlight = 0 \<rparr>"

text \<open>The sessions that a component mounted with \<open>initialQuestions\<close> can be in.\<close>

inductive reachable :: "Question list \<Rightarrow> session \<Rightarrow> bool" for initialQuestions where
  mount: "reachable initialQuestions (mounted initialQuestions)"
| after: "reachable initialQuestions c \<Longrightarrow> step initialQuestions e c = Some c'
          \<Longrightarrow> reachable initialQuestions c'"

subsection \<open>Counting answers\<close>

text \<open>The number of slots of \<^verbatim>\<open>answers\<close> that hold a label.\<close>

definition recordedAnswers :: "string option list \<Rightarrow> nat" where
  "recordedAnswers as = length (filter (\<lambda>a. a \<noteq> None) as)"

text \<open>
  The number of indices with a recorded label that equals the \<^verbatim>\<open>answer\<close> of the question at
  that index.
\<close>

definition correctCount :: "Question list \<Rightarrow> string option list \<Rightarrow> nat" where
  "correctCount qs as =
     length (filter (\<lambda>i. i < length qs \<and> as ! i = Some (answer (qs ! i))) [0..<length as])"

text \<open>The predicate on the score.\<close>

definition score_ok :: "quiz \<Rightarrow> bool" where
  "score_ok s \<longleftrightarrow> score s = correctCount (questions s) (answers s)"

text \<open>
  Modelled from the spec: \<^verbatim>\<open>QuizReview\<close> (\<^verbatim>\<open>./quiz-overview\<close>) is not among the sources. The
  review shows one row for each question it is given, with the answer recorded at that
  index.
\<close>

definition QuizReview :: "Question list \<Rightarrow> string option list \<Rightarrow> (Question \<times> string option) list" where
  "QuizReview qs ua = map (\<lambda>i. (qs ! i, array_get ua i)) [0..<length qs]"

subsection \<open>Invariants of the session\<close>

text \<open>
  The answers fill the positions before the current index, and the current one once it is
  answered; no slot is a hole; every answered position is a known question; the score
  counts the correct ones.
\<close>

definition quiz_inv :: "quiz \<Rightarrow> bool" where
  "quiz_inv s \<longleftrightarrow>
      length (answers s) = currentQuestionIndex s + (if hasAnswered s then 1 else 0)
      \<and> list_all (\<lambda>a. a \<noteq> None) (answers s)
      \<and> length (answers s) \<le> length (questions s)
      \<and> score_ok s"

definition session_inv :: "session \<Rightarrow> bool" where
  "session_inv c \<longleftrightarrow> quiz_inv (ui c) \<and> inFlight c = (if isLoadingMore (ui c) then 1 else 0)"

section \<open>The generation endpoint (src/unnamed/part_001)\<close>

subsection \<open>Values and schemas\<close>

text \<open>A JavaScript value as the model's output can hold it; \<open>JUndefined\<close> is a missing property.\<close>

datatype json =
    JUndefined
  | JNull
  | JBool bool
  | JNumber rat
  | JString string
  | JArray "json list"
  | JObject "(string \<times> json) list"

definition property :: "(string \<times> json) list \<Rightarrow> string \<Rightarrow> json" where
  "property kvs k = (case map_of kvs k of None \<Rightarrow> JUndefined | Some v \<Rightarrow> v)"

text \<open>The type that the validation library finds a value to have.\<close>

datatype parsed_type = t_undefined | t_null | t_boolean | t_number | t_string | t_array | t_object

fun getParsedType :: "json \<Rightarrow> parsed_type" where
  "getParsedType JUndefined = t_undefined"
| "getParsedType JNull = t_null"
| "getParsedType (JBool _) = t_boolean"
| "getParsedType (JNumber _) = t_number"
| "getParsedType (JString _) = t_string"
| "getParsedType (JArray _) = t_array"
| "getParsedType (JObject _) = t_object"

text \<open>
  An issue as the library records it: its code, the path to the value it is about, and
  what was expected and what was received (for a wrong type: the expected type as text and
  the type found; for a wrong enum value: the values allowed and the string found; for a
  wrong length: the length required).
\<close>

datatype path_elem = Key string | Index nat

datatype zod_issue =
    invalid_type "path_elem list" string parsed_type
  | invalid_enum_value "path_elem list" "string list" string
  | too_small "path_elem list" nat
  | too_big "path_elem list" nat

text \<open>The allowed values of an enum as text: each in single quotes, joined with a bar.\<close>

definition quoteValue :: "string \<Rightarrow> string" where
  "quoteValue v = [CHR 0x27] @ v @ [CHR 0x27]"

fun joinValues :: "string list \<Rightarrow> string" where
  "joinValues [] = []"
| "joinValues [v] = quoteValue v"
| "joinValues (v # vs) = quoteValue v @ '' | '' @ joinValues vs"

text \<open>
  The validators, each returning the issues it finds for the value at a path:
  \<^verbatim>\<open>z.string()\<close>, \<^verbatim>\<open>z.enum(values)\<close>, \<^verbatim>\<open>z.array(item).length(n)\<close>, which checks the length and
  then every element, and \<^verbatim>\<open>z.object(shape)\<close>, which checks every key of the shape and
  ignores other keys.
\<close>

definition z_string :: "path_elem list \<Rightarrow> json \<Rightarrow> zod_issue list" where
  "z_string p j =
     (case j of JString _ \<Rightarrow> [] | _ \<Rightarrow> [invalid_type p ''string'' (getParsedType j)])"

definition z_enum :: "string list \<Rightarrow> path_elem list \<Rightarrow> json \<Rightarrow> zod_issue list" where
  "z_enum values p j =
     (case j of
        JString v \<Rightarrow> if v \<in> set values then [] else [invalid_enum_value p values v]
      | _ \<Rightarrow> [invalid_type p (joinValues values) (getParsedType j)])"

definition z_array_length ::
  "(path_elem list \<Rightarrow> json \<Rightarrow> zod_issue list) \<Rightarrow> nat \<Rightarrow> path_elem list \<Rightarrow> json \<Rightarrow> zod_issue list" where
  "z_array_length item n p j =
     (case j of
        JArray xs \<Rightarrow>
          (if n < length xs then [too_big p n] else if length xs < n then [too_small p n] else [])
          @ concat (map (\<lambda>(i, x). item (p @ [Index i]) x) (enumerate 0 xs))
      | _ \<Rightarrow> [invalid_type p ''array'' (getParsedType j)])"

definition z_object ::
  "(string \<times> (path_elem list \<Rightarrow> json \<Rightarrow> zod_issue list)) list \<Rightarrow> path_elem list \<Rightarrow> json
     \<Rightarrow> zod_issue list" where
  "z_object shape p j =
     (case j of
        JObject kvs \<Rightarrow> concat (map (\<lambda>(k, check). check (p @ [Key k]) (property kvs k)) shape)
      | _ \<Rightarrow> [invalid_type p ''object'' (getParsedType j)])"

text \<open>\<^verbatim>\<open>questionSchema\<close> and \<^verbatim>\<open>questionsSchema\<close> (src/lib/schemas.ts).\<close>

definition questionSchema :: "path_elem list \<Rightarrow> json \<Rightarrow> zod_issue list" where
  "questionSchema =
     z_object
       [(''question'', z_string),
        (''options'', z_array_length z_string 4),
        (''answer'', z_enum [''A'', ''B'', ''C'', ''D'']),
        (''explanation'', z_string)]"

definition questionsSchema :: "path_elem list \<Rightarrow> json \<Rightarrow> zod_issue list" where
  "questionsSchema = z_array_length questionSchema 4"

text \<open>\<^verbatim>\<open>schema.safeParse(value)\<close>: the issues found from the empty path; none is success.\<close>

definition safeParse :: "(path_elem list \<Rightarrow> json \<Rightarrow> zod_issue list) \<Rightarrow> json \<Rightarrow> zod_issue list" where
  "safeParse schema j = schema [] j"

text \<open>
  The message that the library's default error map (zod 3) gives each of these issues.
\<close>

fun parsedTypeName :: "parsed_type \<Rightarrow> string" where
  "parsedTypeName t_undefined = ''undefined''"
| "parsedTypeName t_null = ''null''"
| "parsedTypeName t_boolean = ''boolean''"
| "parsedTypeName t_number = ''number''"
| "parsedTypeName t_string = ''string''"
| "parsedTypeName t_array = ''array''"
| "parsedTypeName t_object = ''object''"

fun decimal :: "nat \<Rightarrow> string" where
  "decimal n =
     (if n < 10 then [char_of (48 + n)] else decimal (n div 10) @ [char_of (48 + n mod 10)])"

declare decimal.simps [simp del]

fun defaultErrorMap :: "zod_issue \<Rightarrow> string" where
  "defaultErrorMap (invalid_type p expected received) =
     (if received = t_undefined then ''Required''
      else ''Expected '' @ expected @ '', received '' @ parsedTypeName received)"
| "defaultErrorMap (invalid_enum_value p values received) =
     ''Invalid enum value. Expected '' @ joinValues values @ '', received '' @ quoteValue received"
| "defaultErrorMap (too_small p n) = ''Array must contain exactly '' @ decimal n @ '' element(s)''"
| "defaultErrorMap (too_big p n) = ''Array must contain exactly '' @ decimal n @ '' element(s)''"

subsection \<open>The check of the finished output\<close>

text \<open>\<^verbatim>\<open>lines.join("\n")\<close>.\<close>

fun join_lines :: "string list \<Rightarrow> string" where
  "join_lines [] = []"
| "join_lines [l] = l"
| "join_lines (l # ls) = l @ [CHR 0x0A] @ join_lines ls"

text \<open>
  The \<^verbatim>\<open>onFinish\<close> callback of \<^verbatim>\<open>POST\<close> (lines 47-52), run on the assembled output when the
  generation has finished. \<open>message\<close> is the error map in force, which gives every issue
  its message. The callback returns nothing, or throws.
\<close>

definition onFinish :: "(zod_issue \<Rightarrow> string) \<Rightarrow> json \<Rightarrow> error + unit" where
  "onFinish message object =
     (let issues = safeParse questionsSchema object
      in if issues \<noteq> [] then Inl (Error (join_lines (map message issues))) else Inr ())"

subsection \<open>The request handler\<close>

text \<open>
  Reading a member of a value, for the three members that \<^verbatim>\<open>POST\<close> reads (\<^verbatim>\<open>files\<close>, \<^verbatim>\<open>0\<close>
  and \<^verbatim>\<open>data\<close>): a \<^verbatim>\<open>TypeError\<close> on \<^verbatim>\<open>undefined\<close> and \<^verbatim>\<open>null\<close>, the element or the character
  at 0 of an array or a string, the property of an object, \<^verbatim>\<open>undefined\<close> otherwise.
\<close>

definition js_member :: "json \<Rightarrow> string \<Rightarrow> error + json" where
  "js_member x k =
     (case x of
        JUndefined \<Rightarrow> Inl TypeError
      | JNull \<Rightarrow> Inl TypeError
      | JObject kvs \<Rightarrow> Inr (property kvs k)
      | JArray xs \<Rightarrow>
          Inr (if k = ''0'' then (case xs of [] \<Rightarrow> JUndefined | y # _ \<Rightarrow> y) else JUndefined)
      | JString cs \<Rightarrow>
          Inr (if k = ''0'' then (case cs of [] \<Rightarrow> JUndefined | c # _ \<Rightarrow> JString [c])
               else JUndefined)
      | _ \<Rightarrow> Inr JUndefined)"

text \<open>
  What the language model and the SDK's \<^verbatim>\<open>streamObject\<close>, both outside the repository, make
  of a document: the text that is streamed, and the object that is handed to \<^verbatim>\<open>onFinish\<close>
  when the output is complete.
\<close>

record generation =
  streamed :: string
  finalObject :: json

text \<open>The HTTP response: its status and the text of its body.\<close>

record response =
  status :: nat
  body :: string

text \<open>
  \<^verbatim>\<open>POST\<close> (lines 7-56) on the JSON body of the request. The response is what line 55
  returns, \<^verbatim>\<open>result.toTextStreamResponse()\<close>: it has status 200 and carries the streamed
  text, and it is made before the output is complete. \<^verbatim>\<open>onFinish\<close> runs when the output is
  complete, and nothing in \<^verbatim>\<open>POST\<close> reads what it returns or throws: the result has the
  outcome of the callback beside the response.
\<close>

record post_result =
  returned :: response
  finished :: "error + unit"

definition POST :: "(zod_issue \<Rightarrow> string) \<Rightarrow> (json \<Rightarrow> generation) \<Rightarrow> json \<Rightarrow> error + post_result" where
  "POST message model requestBody =
     (case js_member requestBody ''files'' of
        Inl e \<Rightarrow> Inl e
      | Inr files \<Rightarrow>
          (case js_member files ''0'' of
             Inl e \<Rightarrow> Inl e
           | Inr file \<Rightarrow>
               (case js_member file ''data'' of
                  Inl e \<Rightarrow> Inl e
                | Inr firstFile \<Rightarrow>
                    let result = model firstFile
                    in Inr \<lparr> returned = \<lparr> status = 200, body = streamed result \<rparr>,
                             finished = onFinish message (finalObject result) \<rparr>)))"

subsection \<open>The batch as the specification words it\<close>

text \<open>
  An array of exactly 4 Questions, each an object with a text \<open>question\<close>, exactly 4 text
  \<open>options\<close>, an \<open>answer\<close> among A, B, C, D and a text \<open>explanation\<close>.
\<close>

definition is_text :: "json \<Rightarrow> bool" where
  "is_text j = (case j of JString _ \<Rightarrow> True | _ \<Rightarrow> False)"

definition wellformed_Question :: "json \<Rightarrow> bool" where
  "wellformed_Question j =
     (case j of
        JObject kvs \<Rightarrow>
          is_text (property kvs ''question'')
          \<and> (case property kvs ''options'' of
                JArray os \<Rightarrow> length os = 4 \<and> list_all is_text os
              | _ \<Rightarrow> False)
          \<and> property kvs ''answer'' \<in> {JString ''A'', JString ''B'', JString ''C'', JString ''D''}
          \<and> is_text (property kvs ''explanation'')
      | _ \<Rightarrow> False)"

definition wellformed_batch :: "json \<Rightarrow> bool" where
  "wellformed_batch j =
     (case j of
        JArray qs \<Rightarrow> length qs = 4 \<and> list_all wellformed_Question qs
      | _ \<Rightarrow> False)"

section \<open>Sample data\<close>

definition sampleQuestion :: "string \<Rightarrow> Question" where
  "sampleQuestion a =
     \<lparr> question = ''Q'', options = [''w'', ''x'', ''y'', ''z''], answer = a, explanation = ''E'' \<rparr>"

definition sampleBatch :: "Question list" where
  "sampleBatch = [sampleQuestion ''A'', sampleQuestion ''B'', sampleQuestion ''C'', sampleQuestion ''D'']"

text \<open>
  The scenario of the specification: the first question answered correctly, the second
  incorrectly, a batch preloaded at index 2, the third answered correctly.
\<close>

definition scenario :: "event list" where
  "scenario =
     [SelectAnswer ''A'', NextQuestion, SelectAnswer ''A'', NextQuestion, LoadMore,
      FetchSettled (Inr sampleBatch), SelectAnswer ''C'']"

definition after_scenario :: session where
  "after_scenario =
     \<lparr> ui = \<lparr> questions = sampleBatch @ sampleBatch, currentQuestionIndex = 2,
              answers = [Some ''A'', Some ''A'', Some ''C''], score = 2, hasAnswered = True,
              isComplete = False, progress = ProgressZero, feedbackMessage = correctMessage,
              isLoadingMore = False, showExplanation = False \<rparr>,
       inFlight = 0 \<rparr>"

text \<open>The state of the scenario before its last answer.\<close>

definition before_third_answer :: quiz where
  "before_third_answer =
     \<lparr> questions = sampleBatch @ sampleBatch, currentQuestionIndex = 2,
       answers = [Some ''A'', Some ''A''], score = 1, hasAnswered = False,
       isComplete = False, progress = ProgressZero, feedbackMessage = [],
       isLoadingMore = False, showExplanation = False \<rparr>"

text \<open>
  Two answers given on the initial batch and the third question reached, before and after
  the preload has been started.
\<close>

definition at_index_two :: session where
  "at_index_two =
     \<lparr> ui = \<lparr> questions = sampleBatch, currentQuestionIndex = 2,
              answers = [Some ''A'', Some ''A''], score = 1, hasAnswered = False,
              isComplete = False, progress = ProgressZero, feedbackMessage = [],
              isLoadingMore = False, showExplanation = False \<rparr>,
       inFlight = 0 \<rparr>"

definition fetching_at_index_two :: session where
  "fetching_at_index_two =
     \<lparr> ui = (ui at_index_two)\<lparr> isLoadingMore := True \<rparr>, inFlight = 1 \<rparr>"

text \<open>
  The session after the third and the fourth question have been answered and left while the
  request for more questions is still pending.
\<close>

definition past_the_end :: session where
  "past_the_end =
     \<lparr> ui = \<lparr> questions = sampleBatch, currentQuestionIndex = 4,
              answers = [Some ''A'', Some ''A'', Some ''C'', Some ''D''], score = 3,
              hasAnswered = False, isComplete = False, progress = ProgressZero,
              feedbackMessage = [], isLoadingMore = True, showExplanation = False \<rparr>,
       inFlight = 1 \<rparr>"

text \<open>
  Outputs of the model: a batch of four questions as the schema wants them, the same batch
  with only three options for the second question, and a batch of only three questions.
  A request that carries one document.
\<close>

definition jsonQuestion :: "string list \<Rightarrow> string \<Rightarrow> json" where
  "jsonQuestion opts a =
     JObject [(''question'', JString ''Q''), (''options'', JArray (map JString opts)),
              (''answer'', JString a), (''explanation'', JString ''E'')]"

definition goodOutput :: json where
  "goodOutput =
     JArray [jsonQuestion [''w'', ''x'', ''y'', ''z''] ''A'',
             jsonQuestion [''w'', ''x'', ''y'', ''z''] ''B'',
             jsonQuestion [''w'', ''x'', ''y'', ''z''] ''C'',
             jsonQuestion [''w'', ''x'', ''y'', ''z''] ''D'']"

definition threeOptionsOutput :: json where
  "threeOptionsOutput =
     JArray [jsonQuestion [''w'', ''x'', ''y'', ''z''] ''A'',
             jsonQuestion [''w'', ''x'', ''y''] ''B'',
             jsonQuestion [''w'', ''x'', ''y'', ''z''] ''C'',
             jsonQuestion [''w'', ''x'', ''y'', ''z''] ''D'']"



section \<open>Properties of the quiz component\<close>

subsection \<open>Auxiliary facts\<close>

lemma correctCount_snoc:
  "correctCount qs (as @ [Some a]) =
     correctCount qs as + (if length as < length qs \<and> a = answer (qs ! length as) then 1 else 0)"
proof -
  have "filter (\<lambda>i. i < length qs \<and> (as @ [Some a]) ! i = Some (answer (qs ! i))) [0..<length as]
      = filter (\<lambda>i. i < length qs \<and> as ! i = Some (answer (qs ! i))) [0..<length as]"
    by (rule filter_cong) (auto simp: nth_append)
  then show ?thesis
    by (auto simp: correctCount_def)
qed

lemma correctCount_more_questions:
  assumes "length as \<le> length qs"
  shows "correctCount (qs @ new) as = correctCount qs as"
proof -
  have "filter (\<lambda>i. i < length (qs @ new) \<and> as ! i = Some (answer ((qs @ new) ! i))) [0..<length as]
      = filter (\<lambda>i. i < length qs \<and> as ! i = Some (answer (qs ! i))) [0..<length as]"
    using assms by (intro filter_cong) (auto simp: nth_append)
  then show ?thesis
    by (simp add: correctCount_def)
qed

lemma correctCount_le: "list_all (\<lambda>a. a \<noteq> None) as \<Longrightarrow> correctCount qs as \<le> recordedAnswers as"
proof -
  assume a: "list_all (\<lambda>a. a \<noteq> None) as"
  then have "filter (\<lambda>a. a \<noteq> None) as = as"
    by (simp add: list_all_iff)
  then have "recordedAnswers as = length as" by (simp add: recordedAnswers_def)
  moreover have "correctCount qs as \<le> length [0..<length as]"
    unfolding correctCount_def by (rule length_filter_le)
  ultimately show ?thesis by simp
qed

lemma correctCount_card:
  "correctCount qs as = card {i. i < length as \<and> i < length qs \<and> as ! i = Some (answer (qs ! i))}"
proof -
  have "correctCount qs as =
      card ({i. i < length qs \<and> as ! i = Some (answer (qs ! i))} \<inter> set [0..<length as])"
    unfolding correctCount_def by (rule distinct_length_filter) simp
  also have "{i. i < length qs \<and> as ! i = Some (answer (qs ! i))} \<inter> set [0..<length as]
      = {i. i < length as \<and> i < length qs \<and> as ! i = Some (answer (qs ! i))}"
    by auto
  finally show ?thesis .
qed

lemma array_set_end: "array_set xs (length xs) v = xs @ [Some v]"
  by (simp add: array_set_def)

lemma select_fresh:
  assumes "\<not> hasAnswered s" "length (answers s) = currentQuestionIndex s"
    "handleSelectAnswer a s = Inr s'"
  shows "currentQuestionIndex s < length (questions s)
    \<and> s' = s\<lparr> answers := answers s @ [Some a], hasAnswered := True,
          score := (if a = answer (questions s ! currentQuestionIndex s) then score s + 1 else score s),
          feedbackMessage := (if a = answer (questions s ! currentQuestionIndex s) then correctMessage
             else incorrectMessage (answer (questions s ! currentQuestionIndex s))) \<rparr>"
proof -
  have "array_set (answers s) (currentQuestionIndex s) a = answers s @ [Some a]"
    using assms(2) array_set_end [of "answers s" a] by simp
  with assms(1,3) show ?thesis
    by (auto simp: handleSelectAnswer_def currentQuestion_def Let_def split: if_splits)
qed

lemma select_quiz_inv:
  assumes "quiz_inv s" "\<not> hasAnswered s" "handleSelectAnswer a s = Inr s'"
  shows "quiz_inv s'"
proof -
  from assms(1,2) have len: "length (answers s) = currentQuestionIndex s"
    by (simp add: quiz_inv_def)
  from select_fresh [OF assms(2) len assms(3)] assms(1) len show ?thesis
    by (auto simp: quiz_inv_def score_ok_def correctCount_snoc)
qed

lemma next_quiz_inv: "quiz_inv s \<Longrightarrow> hasAnswered s \<Longrightarrow> quiz_inv (handleNextQuestion s)"
  by (simp add: quiz_inv_def handleNextQuestion_def score_ok_def)

lemma results_quiz_inv: "quiz_inv s \<Longrightarrow> quiz_inv (handleShowResults s)"
  by (simp add: quiz_inv_def handleShowResults_def score_ok_def)

lemma reset_quiz_inv: "quiz_inv (handleReset q0 s)"
  by (simp add: quiz_inv_def handleReset_def score_ok_def correctCount_def)

lemma resume_quiz_inv: "quiz_inv s \<Longrightarrow> quiz_inv (fst (loadMoreIfNeeded_resume r s))"
  by (cases r) (simp_all add: quiz_inv_def loadMoreIfNeeded_resume_def score_ok_def
      correctCount_more_questions)

lemma start_quiz_inv: "quiz_inv s \<Longrightarrow> loadMoreIfNeeded_start s = Some s' \<Longrightarrow> quiz_inv s'"
  by (auto simp: quiz_inv_def loadMoreIfNeeded_start_def score_ok_def split: if_splits)

lemma render_question:
  assumes "render s = Inr (QuestionScreen v)"
  shows "\<not> isComplete s" "currentQuestionIndex s < length (questions s)"
    "showCorrectAnswer v = hasAnswered s" "next_button v = hasAnswered s"
  using assms by (auto simp: render_def currentQuestion_def split: if_splits)

lemma render_results: "render s = Inr (ResultsScreen v) \<Longrightarrow> isComplete s"
  by (auto simp: render_def split: if_splits option.splits)

lemma step_cases [consumes 1, case_names select advance results explain reset load settled timer]:
  assumes "step q0 e c = Some c'"
  obtains
    a s' where "e = SelectAnswer a" "\<not> isComplete (ui c)" "\<not> hasAnswered (ui c)"
      "handleSelectAnswer a (ui c) = Inr s'" "c' = c\<lparr> ui := s' \<rparr>"
  | "e = NextQuestion" "\<not> isComplete (ui c)" "hasAnswered (ui c)"
      "currentQuestionIndex (ui c) < length (questions (ui c))"
      "c' = c\<lparr> ui := handleNextQuestion (ui c) \<rparr>"
  | "e = ShowResults" "\<not> isComplete (ui c)" "c' = c\<lparr> ui := handleShowResults (ui c) \<rparr>"
  | "e = Explain" "\<not> isComplete (ui c)" "c' = c\<lparr> ui := (ui c)\<lparr> showExplanation := True \<rparr> \<rparr>"
  | "e = Reset" "isComplete (ui c)" "c' = c\<lparr> ui := handleReset q0 (ui c) \<rparr>"
  | s' where "e = LoadMore" "loadMoreIfNeeded_start (ui c) = Some s'"
      "c' = \<lparr> ui = s', inFlight = inFlight c + 1 \<rparr>"
  | r where "e = FetchSettled r" "0 < inFlight c"
      "c' = \<lparr> ui = fst (loadMoreIfNeeded_resume r (ui c)), inFlight = inFlight c - 1 \<rparr>"
  | "e = ProgressTimer"
      "c' = c\<lparr> ui := (ui c)\<lparr> progress :=
          ProgressOf (currentQuestionIndex (ui c)) (length (questions (ui c))) \<rparr> \<rparr>"
proof (cases "render (ui c)")
  case (Inl x)
  with assms show ?thesis by (simp add: step_def)
next
  case (Inr scr)
  show ?thesis
  proof (cases scr)
    case (QuestionScreen v)
    note r = render_question [OF Inr [unfolded QuestionScreen]]
    show ?thesis
    proof (cases e)
      case (SelectAnswer a)
      with assms Inr QuestionScreen r show ?thesis
        by (auto simp: step_def split: if_splits sum.splits intro: that(1))
    next
      case NextQuestion
      with assms Inr QuestionScreen r show ?thesis
        by (auto simp: step_def split: if_splits intro: that(2))
    next
      case ShowResults
      with assms Inr QuestionScreen r show ?thesis
        by (auto simp: step_def intro: that(3))
    next
      case Explain
      with assms Inr QuestionScreen r show ?thesis
        by (auto simp: step_def split: if_splits intro: that(4))
    next
      case Reset
      with assms Inr QuestionScreen show ?thesis
        by (simp add: step_def)
    next
      case LoadMore
      with assms Inr QuestionScreen show ?thesis
        by (auto simp: step_def split: option.splits intro: that(6))
    next
      case (FetchSettled x)
      with assms Inr QuestionScreen show ?thesis
        by (auto simp: step_def split: if_splits intro: that(7))
    next
      case ProgressTimer
      with assms Inr QuestionScreen show ?thesis
        by (auto simp: step_def Let_def intro: that(8))
    qed
  next
    case (ResultsScreen v)
    note r = render_results [OF Inr [unfolded ResultsScreen]]
    show ?thesis
    proof (cases e)
      case Reset
      with assms Inr ResultsScreen r show ?thesis
        by (auto simp: step_def intro: that(5))
    next
      case LoadMore
      with assms Inr ResultsScreen show ?thesis
        by (auto simp: step_def split: option.splits intro: that(6))
    next
      case (FetchSettled x)
      with assms Inr ResultsScreen show ?thesis
        by (auto simp: step_def split: if_splits intro: that(7))
    next
      case ProgressTimer
      with assms Inr ResultsScreen show ?thesis
        by (auto simp: step_def Let_def intro: that(8))
    qed (use assms Inr ResultsScreen in \<open>simp_all add: step_def\<close>)
  qed
qed

lemma step_inv:
  assumes "session_inv c" "step q0 e c = Some c'"
  shows "session_inv c'"
  using assms(2)
proof (cases rule: step_cases)
  case (select a s')
  from assms(1) select(3,4) have "quiz_inv s'"
    by (auto simp: session_inv_def intro: select_quiz_inv)
  moreover from assms(1) select(3,4) have "isLoadingMore s' = isLoadingMore (ui c)"
    by (auto simp: handleSelectAnswer_def Let_def split: option.splits if_splits)
  ultimately show ?thesis using assms(1) select(5) by (simp add: session_inv_def)
next
  case advance
  with assms(1) show ?thesis
    by (simp add: session_inv_def next_quiz_inv) (simp add: handleNextQuestion_def)
next
  case results
  with assms(1) show ?thesis
    by (simp add: session_inv_def results_quiz_inv) (simp add: handleShowResults_def)
next
  case explain
  with assms(1) show ?thesis
    by (simp add: session_inv_def quiz_inv_def score_ok_def)
next
  case reset
  with assms(1) show ?thesis
    by (simp add: session_inv_def reset_quiz_inv) (simp add: handleReset_def)
next
  case (load s')
  with assms(1) show ?thesis
    by (auto simp: session_inv_def start_quiz_inv loadMoreIfNeeded_start_def needsMore_def
        split: if_splits)
next
  case (settled r)
  from assms(1) have "quiz_inv (fst (loadMoreIfNeeded_resume r (ui c)))"
    by (simp add: session_inv_def resume_quiz_inv)
  moreover have "\<not> isLoadingMore (fst (loadMoreIfNeeded_resume r (ui c)))"
    by (cases r) (simp_all add: loadMoreIfNeeded_resume_def)
  ultimately show ?thesis using assms(1) settled
    by (auto simp: session_inv_def split: if_splits)
next
  case timer
  with assms(1) show ?thesis
    by (simp add: session_inv_def quiz_inv_def score_ok_def)
qed

lemma reachable_inv: "reachable q0 c \<Longrightarrow> session_inv c"
proof (induction rule: reachable.induct)
  case mount
  show ?case
    by (simp add: session_inv_def quiz_inv_def mounted_def initial_def score_ok_def
        correctCount_def)
next
  case (after c e c')
  then show ?case by (blast intro: step_inv)
qed

lemma run_reachable: "reachable q0 c \<Longrightarrow> run q0 es c = Some c' \<Longrightarrow> reachable q0 c'"
proof (induction es arbitrary: c)
  case Nil
  then show ?case by simp
next
  case (Cons e es)
  then show ?case
    by (auto split: option.splits intro: reachable.after)
qed

lemma mounted_reachable: "reachable q0 (mounted q0)"
  by (rule reachable.mount)

subsection \<open>The sample sessions are reachable\<close>

lemma scenario_run: "run sampleBatch scenario (mounted sampleBatch) = Some after_scenario"
  by code_simp

lemma scenario_reachable: "reachable sampleBatch after_scenario"
  by (rule run_reachable [OF mounted_reachable scenario_run])

lemma at_index_two_run:
  "run sampleBatch [SelectAnswer ''A'', NextQuestion, SelectAnswer ''A'', NextQuestion]
     (mounted sampleBatch) = Some at_index_two"
  by code_simp

lemma fetching_at_index_two_run:
  "run sampleBatch [LoadMore] at_index_two = Some fetching_at_index_two"
  by code_simp

lemma at_index_two_reachable: "reachable sampleBatch at_index_two"
  by (rule run_reachable [OF mounted_reachable at_index_two_run])

lemma fetching_at_index_two_reachable: "reachable sampleBatch fetching_at_index_two"
  by (rule run_reachable [OF at_index_two_reachable fetching_at_index_two_run])

lemma past_the_end_run:
  "run sampleBatch [SelectAnswer ''C'', NextQuestion, SelectAnswer ''D'', NextQuestion]
     fetching_at_index_two = Some past_the_end"
  by code_simp

subsection \<open>Resetting\<close>

text \<open>
  C8. \<^verbatim>\<open>handleReset\<close> puts the index and the score back to 0, empties the answers, clears
  the completion flag and makes the question list the initial batch again, whatever had
  been appended to it.
\<close>

theorem reset_restores_initial_batch:
  "currentQuestionIndex (handleReset initialQuestions s) = 0
   \<and> score (handleReset initialQuestions s) = 0
   \<and> answers (handleReset initialQuestions s) = []
   \<and> isComplete (handleReset initialQuestions s) = False
   \<and> questions (handleReset initialQuestions (s\<lparr> questions := initialQuestions @ appended \<rparr>))
       = initialQuestions
   \<and> questions (handleReset initialQuestions s) = initialQuestions"
  by (simp add: handleReset_def)

subsection \<open>Advancing\<close>

text \<open>
  C10. \<^verbatim>\<open>handleNextQuestion\<close> adds one to the current index and clears the answered flag,
  the feedback message and the explanation flag; the question list, the answers, the score
  and the completion flag (and every other field) stay as they were.
\<close>

theorem advance_frame:
  "handleNextQuestion s =
     s\<lparr> currentQuestionIndex := currentQuestionIndex s + 1, hasAnswered := False,
        feedbackMessage := [], showExplanation := False \<rparr>
   \<and> currentQuestionIndex (handleNextQuestion s) = currentQuestionIndex s + 1
   \<and> hasAnswered (handleNextQuestion s) = False
   \<and> feedbackMessage (handleNextQuestion s) = []
   \<and> showExplanation (handleNextQuestion s) = False
   \<and> questions (handleNextQuestion s) = questions s
   \<and> answers (handleNextQuestion s) = answers s
   \<and> score (handleNextQuestion s) = score s
   \<and> isComplete (handleNextQuestion s) = isComplete s
   \<and> isLoadingMore (handleNextQuestion s) = isLoadingMore s
   \<and> progress (handleNextQuestion s) = progress s"
  by (simp add: handleNextQuestion_def)

subsection \<open>The score\<close>

text \<open>
  C1. In every reachable session the score is the number of indices whose recorded label
  equals the \<^verbatim>\<open>answer\<close> of the question at that index, and so it never exceeds the number
  of recorded answers. Selecting an answer, advancing, asking for the results and appending
  a preloaded batch all lead to a state where the score is that number again.
\<close>

theorem score_counts_correct_answers:
  assumes "reachable q0 c"
  shows "score (ui c) = correctCount (questions (ui c)) (answers (ui c))
    \<and> score (ui c) =
        card {i. i < length (answers (ui c)) \<and> i < length (questions (ui c))
                 \<and> answers (ui c) ! i = Some (answer (questions (ui c) ! i))}
    \<and> score (ui c) \<le> recordedAnswers (answers (ui c))
    \<and> (\<forall>a s'. handleSelectAnswer a (ui c) = Inr s' \<longrightarrow> score_ok s')
    \<and> score_ok (handleNextQuestion (ui c))
    \<and> score_ok (handleShowResults (ui c))
    \<and> (\<forall>newQuestions. score_ok (fst (loadMoreIfNeeded_resume (Inr newQuestions) (ui c))))"
proof -
  from assms have inv: "quiz_inv (ui c)"
    using reachable_inv by (simp add: session_inv_def)
  then have ok: "score_ok (ui c)" and full: "list_all (\<lambda>a. a \<noteq> None) (answers (ui c))"
    by (simp_all add: quiz_inv_def)
  have 1: "score (ui c) = correctCount (questions (ui c)) (answers (ui c))"
    using ok by (simp add: score_ok_def)
  have 2: "score (ui c) \<le> recordedAnswers (answers (ui c))"
    using 1 correctCount_le [OF full] by simp
  have 3: "score_ok s'" if "handleSelectAnswer a (ui c) = Inr s'" for a s'
  proof (cases "hasAnswered (ui c)")
    case True
    with that ok show ?thesis by (simp add: handleSelectAnswer_def)
  next
    case False
    from select_quiz_inv [OF inv False that] show ?thesis by (simp add: quiz_inv_def)
  qed
  have 4: "score_ok (handleNextQuestion (ui c))"
    using ok by (simp add: score_ok_def handleNextQuestion_def)
  have 5: "score_ok (handleShowResults (ui c))"
    using ok by (simp add: score_ok_def handleShowResults_def)
  have 6: "score_ok (fst (loadMoreIfNeeded_resume (Inr new) (ui c)))" for new
    using resume_quiz_inv [OF inv] by (simp add: quiz_inv_def)
  from 1 2 3 4 5 6 show ?thesis
    by (simp add: correctCount_card [symmetric])
qed

theorem score_counts_correct_answers_witness:
  "reachable sampleBatch after_scenario
   \<and> score (ui after_scenario) = 2
   \<and> correctCount (questions (ui after_scenario)) (answers (ui after_scenario)) = 2
   \<and> recordedAnswers (answers (ui after_scenario)) = 3
   \<and> score (ui after_scenario) \<le> recordedAnswers (answers (ui after_scenario))"
proof -
  note t = score_counts_correct_answers [OF scenario_reachable]
  have s: "score (ui after_scenario) = 2"
    by (simp add: after_scenario_def)
  have r: "recordedAnswers (answers (ui after_scenario)) = 3"
    by (simp add: after_scenario_def recordedAnswers_def)
  from t s r scenario_reachable show ?thesis by simp
qed

subsection \<open>Appending a preloaded batch\<close>

text \<open>
  C9. When the request for more questions succeeds, the question list becomes the previous
  list followed by the new questions, so every question already known keeps its index;
  the answers, the score, the current index and the completion flag are not touched.
\<close>

theorem fetch_success_appends:
  "questions (fst (loadMoreIfNeeded_resume (Inr newQuestions) s)) = questions s @ newQuestions
   \<and> (\<forall>i < length (questions s).
        questions (fst (loadMoreIfNeeded_resume (Inr newQuestions) s)) ! i = questions s ! i)
   \<and> answers (fst (loadMoreIfNeeded_resume (Inr newQuestions) s)) = answers s
   \<and> score (fst (loadMoreIfNeeded_resume (Inr newQuestions) s)) = score s
   \<and> currentQuestionIndex (fst (loadMoreIfNeeded_resume (Inr newQuestions) s))
       = currentQuestionIndex s
   \<and> isComplete (fst (loadMoreIfNeeded_resume (Inr newQuestions) s)) = isComplete s"
  by (simp add: loadMoreIfNeeded_resume_def nth_append)

theorem fetch_success_appends_witness:
  "questions (fst (loadMoreIfNeeded_resume (Inr [sampleQuestion ''B'']) (initial sampleBatch)))
     = sampleBatch @ [sampleQuestion ''B'']
   \<and> questions (fst (loadMoreIfNeeded_resume (Inr [sampleQuestion ''B'']) (initial sampleBatch))) ! 3
     = sampleQuestion ''D''"
proof -
  have q: "questions (initial sampleBatch) = sampleBatch"
    by (simp add: initial_def)
  have l: "3 < length (questions (initial sampleBatch))" and d: "sampleBatch ! 3 = sampleQuestion ''D''"
    by (simp_all add: initial_def sampleBatch_def)
  note t = fetch_success_appends [of "[sampleQuestion ''B'']" "initial sampleBatch"]
  from t have a: "questions (fst (loadMoreIfNeeded_resume (Inr [sampleQuestion ''B''])
      (initial sampleBatch))) = questions (initial sampleBatch) @ [sampleQuestion ''B'']"
    by (rule conjunct1)
  from t l have b: "questions (fst (loadMoreIfNeeded_resume (Inr [sampleQuestion ''B''])
      (initial sampleBatch))) ! 3 = questions (initial sampleBatch) ! 3"
    by blast
  from a b show ?thesis by (simp only: q d simp_thms)
qed

subsection \<open>Selecting an answer\<close>

text \<open>
  C2. A second call of \<^verbatim>\<open>handleSelectAnswer\<close> on the same question, with the same or another
  label, returns the state of the first call unchanged (recorded answer, score and feedback
  message included). In a reachable session the handler changes nothing whenever the
  current question has an answer recorded.
\<close>

theorem select_answer_once:
  "(handleSelectAnswer l1 s = Inr s1 \<longrightarrow> handleSelectAnswer l2 s1 = Inr s1)
   \<and> (reachable q0 c
        \<longrightarrow> array_get (answers (ui c)) (currentQuestionIndex (ui c)) \<noteq> None
        \<longrightarrow> handleSelectAnswer l (ui c) = Inr (ui c))"
proof -
  have 1: "handleSelectAnswer l2 s1 = Inr s1" if "handleSelectAnswer l1 s = Inr s1"
  proof -
    from that have "hasAnswered s1"
      by (auto simp: handleSelectAnswer_def Let_def split: if_splits option.splits)
    then show ?thesis by (simp add: handleSelectAnswer_def)
  qed
  have 2: "handleSelectAnswer l (ui c) = Inr (ui c)"
    if r: "reachable q0 c" and a: "array_get (answers (ui c)) (currentQuestionIndex (ui c)) \<noteq> None"
  proof -
    from r have "quiz_inv (ui c)"
      using reachable_inv by (simp add: session_inv_def)
    with a have "hasAnswered (ui c)"
      by (auto simp: quiz_inv_def array_get_def split: if_splits)
    then show ?thesis by (simp add: handleSelectAnswer_def)
  qed
  from 1 2 show ?thesis by blast
qed

theorem select_answer_once_witness:
  "handleSelectAnswer ''C'' before_third_answer = Inr (ui after_scenario)
   \<and> handleSelectAnswer ''D'' (ui after_scenario) = Inr (ui after_scenario)
   \<and> reachable sampleBatch after_scenario
   \<and> array_get (answers (ui after_scenario)) (currentQuestionIndex (ui after_scenario)) = Some ''C''
   \<and> handleSelectAnswer ''A'' (ui after_scenario) = Inr (ui after_scenario)"
proof -
  have first: "handleSelectAnswer ''C'' before_third_answer = Inr (ui after_scenario)"
    by code_simp
  have rec: "array_get (answers (ui after_scenario)) (currentQuestionIndex (ui after_scenario))
      = Some ''C''"
    by code_simp
  note t = select_answer_once [of "''C''" before_third_answer "ui after_scenario" "''D''"
      sampleBatch after_scenario "''A''"]
  from t first have second: "handleSelectAnswer ''D'' (ui after_scenario) = Inr (ui after_scenario)"
    by blast
  from t scenario_reachable rec
  have third: "handleSelectAnswer ''A'' (ui after_scenario) = Inr (ui after_scenario)"
    by simp
  from first second third rec scenario_reachable show ?thesis by blast
qed

subsection \<open>Asking for the results\<close>

text \<open>
  C5. \<^verbatim>\<open>handleShowResults\<close> sets the completion flag at once, whatever is still unanswered.
  The results screen rendered then gives the review as many questions as answers were
  recorded, so the review has that many rows, and shows that number as the total of the
  score.
\<close>

theorem results_cover_recorded_answers:
  assumes "reachable q0 c"
  shows "isComplete (handleShowResults (ui c))
    \<and> render (handleShowResults (ui c)) =
        Inr (ResultsScreen
          \<lparr> correctAnswers = score (ui c),
            totalQuestions = recordedAnswers (answers (ui c)),
            review_questions = take (recordedAnswers (answers (ui c))) (questions (ui c)),
            userAnswers = answers (ui c) \<rparr>)
    \<and> length (QuizReview (take (recordedAnswers (answers (ui c))) (questions (ui c)))
         (answers (ui c))) = recordedAnswers (answers (ui c))"
proof -
  from assms have inv: "quiz_inv (ui c)"
    using reachable_inv by (simp add: session_inv_def)
  then have "filter (\<lambda>a. a \<noteq> None) (answers (ui c)) = answers (ui c)"
    by (simp add: quiz_inv_def list_all_iff)
  then have n: "recordedAnswers (answers (ui c)) = length (answers (ui c))"
    by (simp add: recordedAnswers_def)
  from inv have le: "length (answers (ui c)) \<le> length (questions (ui c))"
    by (simp add: quiz_inv_def)
  show ?thesis
    using le by (simp add: n handleShowResults_def render_def QuizReview_def)
qed

theorem results_cover_recorded_answers_witness:
  "reachable sampleBatch after_scenario
   \<and> isComplete (handleShowResults (ui after_scenario))
   \<and> length (QuizReview (take (recordedAnswers (answers (ui after_scenario)))
        (questions (ui after_scenario))) (answers (ui after_scenario))) = 3
   \<and> length (questions (ui after_scenario)) = 8
   \<and> render (handleShowResults (ui after_scenario)) =
        Inr (ResultsScreen
          \<lparr> correctAnswers = 2, totalQuestions = 3,
            review_questions = [sampleQuestion ''A'', sampleQuestion ''B'', sampleQuestion ''C''],
            userAnswers = [Some ''A'', Some ''A'', Some ''C''] \<rparr>)"
proof -
  note t = results_cover_recorded_answers [OF scenario_reachable]
  from t scenario_reachable show ?thesis
    by (simp add: after_scenario_def recordedAnswers_def sampleBatch_def)
qed

subsection \<open>Preloading\<close>

text \<open>
  C6. \<^verbatim>\<open>loadMoreIfNeeded\<close> sends a request exactly when the current index is within 2 of the
  end of the known list, \<^verbatim>\<open>isLoadingMore\<close> is not set and the session is not complete. While
  \<^verbatim>\<open>isLoadingMore\<close> is set nothing is requested; in every reachable session at most one
  request is pending, one is pending exactly when the flag is set, and a request that is
  started is the only one.
\<close>

theorem single_fetch_in_flight:
  "(loadMoreIfNeeded_start s \<noteq> None \<longleftrightarrow>
      length (questions s) \<le> currentQuestionIndex s + 2 \<and> \<not> isLoadingMore s \<and> \<not> isComplete s)
   \<and> (isLoadingMore s \<longrightarrow> loadMoreIfNeeded_start s = None)
   \<and> (reachable q0 c \<longrightarrow>
        inFlight c \<le> 1
        \<and> (inFlight c = 1 \<longleftrightarrow> isLoadingMore (ui c))
        \<and> (isLoadingMore (ui c) \<longrightarrow> step q0 LoadMore c = None)
        \<and> (\<forall>c'. step q0 LoadMore c = Some c' \<longrightarrow> inFlight c = 0 \<and> inFlight c' = 1))"
proof -
  have 1: "loadMoreIfNeeded_start s \<noteq> None \<longleftrightarrow>
      length (questions s) \<le> currentQuestionIndex s + 2 \<and> \<not> isLoadingMore s \<and> \<not> isComplete s"
    by (auto simp: loadMoreIfNeeded_start_def needsMore_def)
  have 2: "loadMoreIfNeeded_start s = None" if "isLoadingMore s" for s
    using that by (simp add: loadMoreIfNeeded_start_def needsMore_def)
  have 3: "inFlight c \<le> 1 \<and> (inFlight c = 1 \<longleftrightarrow> isLoadingMore (ui c))
        \<and> (isLoadingMore (ui c) \<longrightarrow> step q0 LoadMore c = None)
        \<and> (\<forall>c'. step q0 LoadMore c = Some c' \<longrightarrow> inFlight c = 0 \<and> inFlight c' = 1)"
    if r: "reachable q0 c"
  proof -
    from r have inv: "inFlight c = (if isLoadingMore (ui c) then 1 else 0)"
      using reachable_inv by (simp add: session_inv_def)
    have a: "step q0 LoadMore c = None" if "isLoadingMore (ui c)"
      using 2 [OF that]
      by (simp add: step_def Let_def split: sum.splits screen.splits)
    have b: "inFlight c = 0 \<and> inFlight c' = 1" if s: "step q0 LoadMore c = Some c'" for c'
    proof -
      from s a have "\<not> isLoadingMore (ui c)" by auto
      with inv have "inFlight c = 0" by simp
      moreover from s have "inFlight c' = inFlight c + 1"
        by (cases rule: step_cases) simp_all
      ultimately show ?thesis by simp
    qed
    from inv a b show ?thesis by auto
  qed
  from 1 2 3 show ?thesis by blast
qed

theorem single_fetch_in_flight_witness:
  "reachable sampleBatch at_index_two
   \<and> loadMoreIfNeeded_start (ui at_index_two) = Some (ui fetching_at_index_two)
   \<and> step sampleBatch LoadMore at_index_two = Some fetching_at_index_two
   \<and> inFlight at_index_two = 0 \<and> inFlight fetching_at_index_two = 1
   \<and> reachable sampleBatch fetching_at_index_two
   \<and> isLoadingMore (ui fetching_at_index_two)
   \<and> loadMoreIfNeeded_start (ui fetching_at_index_two) = None
   \<and> step sampleBatch LoadMore fetching_at_index_two = None"
proof -
  have s: "step sampleBatch LoadMore at_index_two = Some fetching_at_index_two"
    by code_simp
  have l: "isLoadingMore (ui fetching_at_index_two)"
    by code_simp
  have st: "loadMoreIfNeeded_start (ui at_index_two) = Some (ui fetching_at_index_two)"
    by code_simp
  note t1 = single_fetch_in_flight [of "ui fetching_at_index_two" sampleBatch at_index_two]
  note t2 = single_fetch_in_flight [of "ui fetching_at_index_two" sampleBatch fetching_at_index_two]
  from t1 at_index_two_reachable s
  have n: "inFlight at_index_two = 0 \<and> inFlight fetching_at_index_two = 1"
    by blast
  from t2 l have none: "loadMoreIfNeeded_start (ui fetching_at_index_two) = None"
    by blast
  from t2 fetching_at_index_two_reachable l
  have none': "step sampleBatch LoadMore fetching_at_index_two = None"
    by blast
  from s l st n none none' at_index_two_reachable fetching_at_index_two_reachable
  show ?thesis by blast
qed

subsection \<open>The current index\<close>

lemma handleNextQuestion_bounded_in_range:
  assumes "currentQuestionIndex s < length (questions s)"
  shows "currentQuestionIndex (handleNextQuestion_bounded s)
      < length (questions (handleNextQuestion_bounded s))"
  using assms by (simp add: handleNextQuestion_bounded_def)

text \<open>
  C4. The current index does not stay a position of the question list. With an initial
  batch of four questions and the preload of index 2 still pending, answering and leaving
  the third and the fourth question is possible, and \<^verbatim>\<open>handleNextQuestion\<close> then makes the
  index 4 in a session that is not complete: \<^verbatim>\<open>currentQuestion\<close> is undefined there, the
  render raises a \<^verbatim>\<open>TypeError\<close>, and so would selecting an answer.
\<close>

theorem advance_leaves_question_list:
  "reachable sampleBatch past_the_end
   \<and> \<not> isComplete (ui past_the_end)
   \<and> currentQuestionIndex (ui past_the_end) = 4
   \<and> length (questions (ui past_the_end)) = 4
   \<and> currentQuestion (ui past_the_end) = None
   \<and> render (ui past_the_end) = Inl TypeError
   \<and> handleSelectAnswer ''A'' (ui past_the_end) = Inl TypeError"
proof -
  have "reachable sampleBatch past_the_end"
    by (rule run_reachable [OF fetching_at_index_two_reachable past_the_end_run])
  moreover have "\<not> isComplete (ui past_the_end)"
    "currentQuestionIndex (ui past_the_end) = 4"
    "length (questions (ui past_the_end)) = 4"
    by (simp_all add: past_the_end_def sampleBatch_def)
  moreover have "currentQuestion (ui past_the_end) = None"
    "render (ui past_the_end) = Inl TypeError"
    "handleSelectAnswer ''A'' (ui past_the_end) = Inl TypeError"
    by code_simp+
  ultimately show ?thesis by blast
qed

subsection \<open>A failed preload\<close>

text \<open>
  C7, as claimed: no retry after a failed request. In the session that is preloading at
  index 2, the rejection brings the session back to the one before the request; the
  dependency list of the effect has changed, so the effect runs again, and it sends the
  request again.
\<close>

theorem fetch_failure_retried_counterexample:
  "reachable sampleBatch fetching_at_index_two
   \<and> step sampleBatch (FetchSettled (Inl ''offline'')) fetching_at_index_two = Some at_index_two
   \<and> loadMore_deps (ui at_index_two) \<noteq> loadMore_deps (ui fetching_at_index_two)
   \<and> step sampleBatch LoadMore at_index_two = Some fetching_at_index_two"
proof -
  have "step sampleBatch (FetchSettled (Inl ''offline'')) fetching_at_index_two = Some at_index_two"
    by code_simp
  moreover have "loadMore_deps (ui at_index_two) \<noteq> loadMore_deps (ui fetching_at_index_two)"
    by code_simp
  moreover have "step sampleBatch LoadMore at_index_two = Some fetching_at_index_two"
    by code_simp
  ultimately show ?thesis
    using fetching_at_index_two_reachable by blast
qed

text \<open>
  C7, amended. When the request fails, the error is caught and logged, and only
  \<^verbatim>\<open>isLoadingMore\<close> is cleared: the questions, the answers, the score, the current index and
  the completion flag are unchanged and the same screen is rendered, so play on the loaded
  questions goes on. The guard of the preload holds again afterwards exactly when the index
  is still within 2 of the end and the session is not complete.
\<close>

theorem fetch_failure_keeps_state:
  "loadMoreIfNeeded_resume (Inl err) s =
     (s\<lparr> isLoadingMore := False \<rparr>, [''Failed to load more questions: '' @ err])
   \<and> questions (fst (loadMoreIfNeeded_resume (Inl err) s)) = questions s
   \<and> answers (fst (loadMoreIfNeeded_resume (Inl err) s)) = answers s
   \<and> score (fst (loadMoreIfNeeded_resume (Inl err) s)) = score s
   \<and> currentQuestionIndex (fst (loadMoreIfNeeded_resume (Inl err) s)) = currentQuestionIndex s
   \<and> isComplete (fst (loadMoreIfNeeded_resume (Inl err) s)) = isComplete s
   \<and> hasAnswered (fst (loadMoreIfNeeded_resume (Inl err) s)) = hasAnswered s
   \<and> render (fst (loadMoreIfNeeded_resume (Inl err) s)) = render s
   \<and> (loadMoreIfNeeded_start (fst (loadMoreIfNeeded_resume (Inl err) s)) \<noteq> None \<longleftrightarrow>
        length (questions s) \<le> currentQuestionIndex s + 2 \<and> \<not> isComplete s)"
  by (auto simp: loadMoreIfNeeded_resume_def loadMoreIfNeeded_start_def needsMore_def
      render_def currentQuestion_def)

section \<open>Properties of the generation endpoint\<close>

subsection \<open>The schemas accept exactly the well-formed batches\<close>

lemma z_string_ok: "z_string p j = [] \<longleftrightarrow> is_text j"
  by (cases j) (simp_all add: z_string_def is_text_def)

lemma z_enum_ok: "z_enum vs p j = [] \<longleftrightarrow> (\<exists>v. j = JString v \<and> v \<in> set vs)"
  by (cases j) (simp_all add: z_enum_def)

lemma all_enumerate:
  "(\<forall>ix \<in> set (enumerate n xs). P (snd ix)) \<longleftrightarrow> (\<forall>x \<in> set xs. P x)"
proof -
  have "set xs = snd ` set (enumerate n xs)"
    by (simp flip: set_map)
  then have "(\<forall>x \<in> set xs. P x) \<longleftrightarrow> (\<forall>x \<in> snd ` set (enumerate n xs). P x)"
    by (simp only:)
  then show ?thesis by simp
qed

lemma z_array_length_ok:
  assumes "\<And>q x. item q x = [] \<longleftrightarrow> P x"
  shows "z_array_length item n p j = [] \<longleftrightarrow>
     (\<exists>xs. j = JArray xs \<and> length xs = n \<and> list_all P xs)"
proof (cases j)
  case (JArray xs)
  have "(\<forall>ix \<in> set (enumerate 0 xs). case ix of (i, x) \<Rightarrow> item (p @ [Index i]) x = [])
      \<longleftrightarrow> (\<forall>ix \<in> set (enumerate 0 xs). P (snd ix))"
    by (auto simp: assms)
  also have "\<dots> \<longleftrightarrow> (\<forall>x \<in> set xs. P x)"
    by (rule all_enumerate)
  finally show ?thesis
    unfolding JArray by (auto simp: z_array_length_def list_all_iff)
qed (simp_all add: z_array_length_def)

lemma questionSchema_ok: "questionSchema p j = [] \<longleftrightarrow> wellformed_Question j"
proof (cases j)
  case (JObject kvs)
  have opts: "z_array_length z_string 4 q x = [] \<longleftrightarrow>
      (case x of JArray os \<Rightarrow> length os = 4 \<and> list_all is_text os | _ \<Rightarrow> False)" for q x
    unfolding z_array_length_ok [of z_string is_text, OF z_string_ok]
    by (cases x) simp_all
  have ans: "z_enum [''A'', ''B'', ''C'', ''D''] q x = [] \<longleftrightarrow>
      x \<in> {JString ''A'', JString ''B'', JString ''C'', JString ''D''}" for q x
    unfolding z_enum_ok by auto
  show ?thesis
    unfolding JObject questionSchema_def z_object_def wellformed_Question_def
    by (simp add: z_string_ok opts ans)
qed (simp_all add: questionSchema_def z_object_def wellformed_Question_def)

lemma questionsSchema_ok: "safeParse questionsSchema j = [] \<longleftrightarrow> wellformed_batch j"
  unfolding safeParse_def questionsSchema_def
    z_array_length_ok [of questionSchema wellformed_Question, OF questionSchema_ok]
    wellformed_batch_def
  by (cases j) simp_all

text \<open>
  The check run on the finished output throws exactly when the output is not a well-formed
  batch, and then with the messages of the issues.
\<close>

lemma onFinish_throws_iff:
  "(onFinish message object = Inr () \<longleftrightarrow> wellformed_batch object)
   \<and> (\<not> wellformed_batch object \<longrightarrow>
        onFinish message object
          = Inl (Error (join_lines (map message (safeParse questionsSchema object)))))"
  using questionsSchema_ok [of object]
  by (auto simp: onFinish_def Let_def)

lemma onFinish_examples:
  "onFinish defaultErrorMap goodOutput = Inr ()"
  "onFinish defaultErrorMap threeOptionsOutput
     = Inl (Error ''Array must contain exactly 4 element(s)'')"
  "onFinish defaultErrorMap JUndefined = Inl (Error ''Required'')"
  by code_simp+

text \<open>The response does not depend on the object that the callback checks.\<close>

lemma POST_response_whatever_object:
  assumes "POST message (\<lambda>d. \<lparr> streamed = text, finalObject = object \<rparr>) requestBody = Inr r"
  shows "POST message (\<lambda>d. \<lparr> streamed = text, finalObject = object' \<rparr>) requestBody
      = Inr (r\<lparr> finished := onFinish message object' \<rparr>)"
    and "returned r = \<lparr> status = 200, body = text \<rparr>"
  using assms by (auto simp: POST_def Let_def split: sum.splits)

subsection \<open>Delivery of malformed output\<close>


end
